theory Spec2Isabelle
  imports Main "HOL-Library.Sublist"
begin

section \<open>Python strings\<close>

text \<open>
  The program is Python 3, so a string is a sequence of Unicode code points. A code
  point is a natural number; ASCII literals of the source are written with \<open>str\<close>.
\<close>

type_synonym codepoint = nat
type_synonym pystr = "codepoint list"

definition str :: "string \<Rightarrow> pystr" where
  "str s = map of_char s"

text \<open>
  Two methods of \<open>str\<close> consult the Unicode database of the Python runtime, which is
  not part of the repository: \<open>isalnum\<close> and \<open>lower\<close>. Their ASCII behaviour is
  written out below; what they do beyond ASCII is a parameter of the model.
  \<open>uni_isalnum\<close> is the per-character test of \<open>str.isalnum\<close> on a code point from
  U+0080 on, \<open>uni_lower\<close> is \<open>str.lower\<close> on a string that has such a code point
  (lower-casing is not character-wise there: the result may be longer than the input,
  and capital sigma depends on its position in the word).
\<close>

record unicode =
  uni_isalnum :: "codepoint \<Rightarrow> bool"
  uni_lower :: "pystr \<Rightarrow> pystr"

definition ascii_digit :: "codepoint \<Rightarrow> bool" where
  "ascii_digit c = (48 \<le> c \<and> c \<le> 57)"

definition ascii_upper :: "codepoint \<Rightarrow> bool" where
  "ascii_upper c = (65 \<le> c \<and> c \<le> 90)"

definition ascii_lower :: "codepoint \<Rightarrow> bool" where
  "ascii_lower c = (97 \<le> c \<and> c \<le> 122)"

definition ascii_alnum :: "codepoint \<Rightarrow> bool" where
  "ascii_alnum c = (ascii_digit c \<or> ascii_upper c \<or> ascii_lower c)"

definition is_ascii :: "pystr \<Rightarrow> bool" where
  "is_ascii s = list_all (\<lambda>c. c < 128) s"

definition isalnum_char :: "unicode \<Rightarrow> codepoint \<Rightarrow> bool" where
  "isalnum_char U c = (if c < 128 then ascii_alnum c else uni_isalnum U c)"

text \<open>\<open>s.isalnum()\<close>: at least one character, and all of them alphanumeric.\<close>

definition isalnum :: "unicode \<Rightarrow> pystr \<Rightarrow> bool" where
  "isalnum U s = (s \<noteq> [] \<and> list_all (isalnum_char U) s)"

definition lower_char :: "codepoint \<Rightarrow> codepoint" where
  "lower_char c = (if ascii_upper c then c + 32 else c)"

text \<open>\<open>s.lower()\<close>.\<close>

definition lower :: "unicode \<Rightarrow> pystr \<Rightarrow> pystr" where
  "lower U s = (if is_ascii s then map lower_char s else uni_lower U s)"

text \<open>
  \<open>s.replace(old, new)\<close>: the occurrences of \<open>old\<close> are replaced from left to right
  without overlap; an empty \<open>old\<close> matches before every character and at the end.
\<close>

function str_replace :: "pystr \<Rightarrow> pystr \<Rightarrow> pystr \<Rightarrow> pystr" where
  "str_replace old new [] = (if old = [] then new else [])"
| "str_replace old new (c # cs) =
     (if old = [] then new @ c # str_replace old new cs
      else if prefix old (c # cs)
        then new @ str_replace old new (drop (length old) (c # cs))
        else c # str_replace old new cs)"
  by pat_completeness auto
termination
  by (relation "measure (\<lambda>(old, new, s). length s)") auto

section \<open>The namespace classifier\<close>

text \<open>
  The character class of \<open>re.sub(r"[^0-9a-zA-Z\-_\.\/]", "_", name)\<close> is negated:
  \<open>re_keeps\<close> holds for the characters the class lists, which the substitution leaves
  alone. A negated class also matches a line feed, and no flag is given, so every
  other code point is replaced.
\<close>

definition re_keeps :: "codepoint \<Rightarrow> bool" where
  "re_keeps c = (ascii_digit c \<or> ascii_lower c \<or> ascii_upper c
                 \<or> c = 45 \<or> c = 95 \<or> c = 46 \<or> c = 47)"

definition re_sub :: "pystr \<Rightarrow> pystr \<Rightarrow> pystr" where
  "re_sub repl s = concat (map (\<lambda>c. if re_keeps c then [c] else repl) s)"

definition organizationNameFromGroupName :: "unicode \<Rightarrow> pystr \<Rightarrow> pystr" where
  "organizationNameFromGroupName U name =
     (if isalnum U name then name
      else str_replace (str ''/'') (str ''.'') (re_sub (str ''_'') name))"


section \<open>The archive index\<close>

text \<open>
  \<open>GitLabRepo\<close> is the named tuple of the source, \<open>GitlabBackup\<close> the object after
  \<open>__init__\<close>. \<open>backupfile\<close> stands for the opened archive: the member names in the
  order \<open>getmembers()\<close> lists them. The three \<open>gogs\<close> attributes are set together,
  and only when both the URL and the administrator are given.
\<close>

record GitLabRepo =
  "bundle" :: pystr
  membership :: pystr
  name :: pystr

record GitlabBackup =
  backupfile :: "pystr list"
  usernames :: "pystr list"
  gogsbaseurl :: "pystr option"
  gogsauth :: "(pystr \<times> pystr) option"
  gogsapi :: "pystr option"

definition init_GitlabBackup ::
  "unicode \<Rightarrow> pystr list \<Rightarrow> pystr list \<Rightarrow> pystr option \<Rightarrow> (pystr \<times> pystr) option \<Rightarrow> GitlabBackup" where
  "init_GitlabBackup U members names url admin =
     (case (url, admin) of
        (Some u, Some (a, p)) \<Rightarrow>
          \<lparr>backupfile = members, usernames = map (lower U) names,
           gogsbaseurl = Some (str_replace (str ''://'') (str ''://'' @ a @ str '':'' @ p @ str ''@'') u),
           gogsauth = Some (a, p), gogsapi = Some u\<rparr>
      | _ \<Rightarrow>
          \<lparr>backupfile = members, usernames = map (lower U) names,
           gogsbaseurl = None, gogsauth = None, gogsapi = None\<rparr>)"

text \<open>
  The pattern \<open>^repositories/(.*)/(.*)\.bundle$\<close> as the backtracking matcher of
  \<open>re\<close> runs it, with no flag set:
  \<^item> \<open>.\<close> is any character except a line feed (\<open>re_dot\<close>);
  \<^item> a greedy \<open>(.*)\<close> first takes one more character and matches the rest of the
    pattern, and gives the character back only when that fails (\<open>re_star_dot\<close>, with
    the rest of the pattern as the continuation \<open>k\<close> and the group collected in \<open>g\<close>);
  \<^item> \<open>$\<close> holds at the end of the string and also just before a line feed that ends
    the string (\<open>re_end\<close>);
  \<^item> \<open>^\<close> holds at the start of the string only, so \<open>findall\<close> finds one match
    at most, and returns the pair of its groups.
\<close>

definition re_dot :: "codepoint \<Rightarrow> bool" where
  "re_dot c = (c \<noteq> 10)"

fun re_star_dot :: "(pystr \<Rightarrow> pystr \<Rightarrow> 'a option) \<Rightarrow> pystr \<Rightarrow> pystr \<Rightarrow> 'a option" where
  "re_star_dot k g [] = k g []"
| "re_star_dot k g (c # cs) =
     (if re_dot c
      then (case re_star_dot k (g @ [c]) cs of Some m \<Rightarrow> Some m | None \<Rightarrow> k g (c # cs))
      else k g (c # cs))"

definition re_lit :: "pystr \<Rightarrow> pystr \<Rightarrow> pystr option" where
  "re_lit l s = (if prefix l s then Some (drop (length l) s) else None)"

definition re_end :: "pystr \<Rightarrow> bool" where
  "re_end s = (s = [] \<or> s = [10])"

text \<open>\<open>\.bundle$\<close>, after the groups \<open>g1\<close> and \<open>g2\<close>.\<close>

definition re_tail :: "pystr \<Rightarrow> pystr \<Rightarrow> pystr \<Rightarrow> (pystr \<times> pystr) option" where
  "re_tail g1 g2 s =
     (case re_lit (str ''.bundle'') s of
        None \<Rightarrow> None
      | Some s' \<Rightarrow> if re_end s' then Some (g1, g2) else None)"

text \<open>\<open>/(.*)\.bundle$\<close>, after the group \<open>g1\<close>.\<close>

definition re_mid :: "pystr \<Rightarrow> pystr \<Rightarrow> (pystr \<times> pystr) option" where
  "re_mid g1 s =
     (case re_lit (str ''/'') s of
        None \<Rightarrow> None
      | Some s' \<Rightarrow> re_star_dot (re_tail g1) [] s')"

definition re_match :: "pystr \<Rightarrow> (pystr \<times> pystr) option" where
  "re_match s =
     (case re_lit (str ''repositories/'') s of
        None \<Rightarrow> None
      | Some s' \<Rightarrow> re_star_dot re_mid [] s')"

definition re_findall :: "pystr \<Rightarrow> (pystr \<times> pystr) list" where
  "re_findall s = (case re_match s of None \<Rightarrow> [] | Some g \<Rightarrow> [g])"

text \<open>
  \<open>__iter__\<close>: each member name is paired with the matches of the pattern (the tuple
  \<open>(fi.name, *findall)\<close>, whose length is one more than the number of matches); the
  tuples longer than one are kept, and a record is built from the first match.
\<close>

definition iter_GitlabBackup :: "GitlabBackup \<Rightarrow> GitLabRepo list" where
  "iter_GitlabBackup self =
     map (\<lambda>info. \<lparr>bundle = fst info, membership = fst (snd info ! 0), name = snd (snd info ! 0)\<rparr>)
       (filter (\<lambda>fi. 1 + length (snd fi) > 1)
          (map (\<lambda>n. (n, re_findall n)) (backupfile self)))"

definition isUserRepo :: "unicode \<Rightarrow> GitlabBackup \<Rightarrow> GitLabRepo \<Rightarrow> bool" where
  "isUserRepo U self gitlabrepo = (lower U (membership gitlabrepo) \<in> set (usernames self))"

section \<open>The world outside the program\<close>

text \<open>
  The program acts on a Gogs server (through the \<open>gogs_client\<close> library), on the file
  system and on git. None of them is part of the repository, so each call is modelled
  by its documented effect on an explicit state, and every call is recorded in the
  \<open>trace\<close> in the order the program makes it:
  \<^item> \<open>repos\<close> are the repositories of the server, as (owner, name);
  \<^item> \<open>tokens\<close> are the access tokens of the server, as (user, label);
  \<^item> \<open>dirs\<close> are the directories and \<open>files\<close> the files of the file system, a file
    with its read-only attribute.
  An exception of Python is a value of \<open>error\<close>; the state reached when it was
  raised is kept, as it is in the program.
\<close>

datatype error =
    AttributeError | ApiFailure | GitCommandError | TarError | OSError
  | FileNotFoundError | NotADirectoryError | PermissionError

datatype event =
    Echo pystr
  | Mkdtemp pystr
  | Extract pystr pystr
  | CloneFrom pystr pystr
  | RepoExists pystr pystr
  | EnsureToken pystr pystr
  | CreateRepo pystr pystr pystr "pystr option"
  | GitPush pystr pystr

record world =
  repos :: "(pystr \<times> pystr) list"
  tokens :: "(pystr \<times> pystr) list"
  dirs :: "pystr list"
  files :: "(pystr \<times> bool) list"
  trace :: "event list"

text \<open>
  What the program cannot decide is a parameter: the Unicode tables, the text of the
  current date (\<open>today\<close>), the name \<open>TemporaryDirectory\<close> picks (\<open>mkdtemp\<close>), which calls fail
  (the network, the server, git, the disk), the read-only attribute of an extracted
  member, the files a clone of a bundle consists of, and whether the operating system
  refuses to delete a read-only file (Windows does, POSIX does not).
\<close>

record env =
  uni :: unicode
  today :: pystr
  mkdtemp :: pystr
  fails :: "event \<Rightarrow> bool"
  extracted_readonly :: "pystr \<Rightarrow> bool"
  clone_tree :: "pystr \<Rightarrow> (pystr \<times> bool) list"
  readonly_blocks_delete :: bool

type_synonym 'a io = "world \<Rightarrow> (error + 'a) \<times> world"

definition io_return :: "'a \<Rightarrow> 'a io" where
  "io_return x = (\<lambda>w. (Inr x, w))"

definition io_raise :: "error \<Rightarrow> 'a io" where
  "io_raise e = (\<lambda>w. (Inl e, w))"

definition io_bind :: "'a io \<Rightarrow> ('a \<Rightarrow> 'b io) \<Rightarrow> 'b io" where
  "io_bind m f = (\<lambda>w. case m w of (Inl e, w') \<Rightarrow> (Inl e, w') | (Inr x, w') \<Rightarrow> f x w')"

text \<open>\<open>try: m except: h\<close>.\<close>

definition io_catch :: "'a io \<Rightarrow> (error \<Rightarrow> 'a io) \<Rightarrow> 'a io" where
  "io_catch m h = (\<lambda>w. case m w of (Inl e, w') \<Rightarrow> h e w' | (Inr x, w') \<Rightarrow> (Inr x, w'))"

text \<open>
  \<open>try: m finally: c\<close>: \<open>c\<close> runs whatever \<open>m\<close> did; an exception of \<open>c\<close> replaces
  the outcome of \<open>m\<close>.
\<close>

definition try_finally :: "'a io \<Rightarrow> unit io \<Rightarrow> 'a io" where
  "try_finally m c =
     (\<lambda>w. case m w of
        (r, w') \<Rightarrow> (case c w' of (Inl e, w'') \<Rightarrow> (Inl e, w'') | (Inr _, w'') \<Rightarrow> (r, w'')))"

definition emit :: "event \<Rightarrow> unit io" where
  "emit e = (\<lambda>w. (Inr (), w\<lparr>trace := trace w @ [e]\<rparr>))"

text \<open>\<open>click.echo\<close>.\<close>

definition echo :: "pystr \<Rightarrow> unit io" where
  "echo msg = emit (Echo msg)"

text \<open>A call that leaves the program: recorded, and it raises when the environment refuses it.\<close>

definition external :: "env \<Rightarrow> error \<Rightarrow> event \<Rightarrow> unit io" where
  "external E err e = io_bind (emit e) (\<lambda>_. if fails E e then io_raise err else io_return ())"

subsection \<open>The Gogs API\<close>

text \<open>
  \<open>repo_exists(auth, username, repo_name)\<close> tells whether the user or organization
  \<open>username\<close> owns a repository \<open>repo_name\<close>. \<open>ensure_token(auth, name, username)\<close>
  returns the token \<open>name\<close> of \<open>username\<close>, creating it when there is none; the token
  stands for its user. \<open>create_repo(auth, name, description, organization)\<close> creates
  the repository under the organization when one is given and under the user of the
  token otherwise; the server refuses a repository that exists.
  \<open>repo.git.push("--mirror", url)\<close> pushes the working copy \<open>repo\<close>.
\<close>

definition repo_exists :: "env \<Rightarrow> pystr \<Rightarrow> pystr \<Rightarrow> bool io" where
  "repo_exists E username repo_name =
     io_bind (external E ApiFailure (RepoExists username repo_name))
       (\<lambda>_ w. (Inr ((username, repo_name) \<in> set (repos w)), w))"

definition ensure_token :: "env \<Rightarrow> pystr \<Rightarrow> pystr \<Rightarrow> pystr io" where
  "ensure_token E label username =
     io_bind (external E ApiFailure (EnsureToken label username))
       (\<lambda>_ w. (Inr username,
                w\<lparr>tokens := (if (username, label) \<in> set (tokens w) then tokens w
                              else tokens w @ [(username, label)])\<rparr>))"

definition create_repo :: "env \<Rightarrow> pystr \<Rightarrow> pystr \<Rightarrow> pystr \<Rightarrow> pystr option \<Rightarrow> unit io" where
  "create_repo E user repo_name description organization =
     io_bind (external E ApiFailure (CreateRepo user repo_name description organization))
       (\<lambda>_ w. let owner = (case organization of None \<Rightarrow> user | Some g \<Rightarrow> g)
               in if (owner, repo_name) \<in> set (repos w) then (Inl ApiFailure, w)
                  else (Inr (), w\<lparr>repos := repos w @ [(owner, repo_name)]\<rparr>))"

definition git_push :: "env \<Rightarrow> pystr \<Rightarrow> pystr \<Rightarrow> unit io" where
  "git_push E repo url = external E GitCommandError (GitPush repo url)"

subsection \<open>The import strategies\<close>

definition importUserRepo :: "env \<Rightarrow> GitlabBackup \<Rightarrow> GitLabRepo \<Rightarrow> pystr \<Rightarrow> unit io" where
  "importUserRepo E self gitlabrepo repo =
     (case (gogsapi self, gogsauth self, gogsbaseurl self) of
        (Some api, Some auth, Some baseurl) \<Rightarrow>
          io_bind (repo_exists E (membership gitlabrepo) (name gitlabrepo)) (\<lambda>found.
            if found then
              echo (str ''WARNING: Repository '' @ name gitlabrepo
                    @ str '' for user '' @ membership gitlabrepo
                    @ str '' already exists - skipping!'')
            else
              io_bind (echo (str ''Importing user repository: '' @ name gitlabrepo
                             @ str '' ('' @ bundle gitlabrepo @ str '')'')) (\<lambda>_.
              io_bind (ensure_token E (str ''gitlab2gogs'') (membership gitlabrepo)) (\<lambda>userauth.
              io_bind (create_repo E userauth (name gitlabrepo) (today E) None) (\<lambda>_.
              git_push E repo
                (baseurl @ str ''/'' @ membership gitlabrepo @ str ''/'' @ name gitlabrepo
                 @ str ''.git'')))))
      | _ \<Rightarrow> io_raise AttributeError)"

definition importGroupRepo :: "env \<Rightarrow> GitlabBackup \<Rightarrow> GitLabRepo \<Rightarrow> pystr \<Rightarrow> unit io" where
  "importGroupRepo E self gitlabrepo repo =
     (case (gogsapi self, gogsauth self, gogsbaseurl self) of
        (Some api, Some auth, Some baseurl) \<Rightarrow>
          io_bind (repo_exists E (fst auth) (name gitlabrepo)) (\<lambda>found.
            if found then
              echo (str ''WARNING: Repository '' @ name gitlabrepo
                    @ str '' for user '' @ fst auth
                    @ str '' already exists - skipping!'')
            else
              io_bind (echo (str ''Importing organization repository: '' @ name gitlabrepo
                             @ str '' ('' @ bundle gitlabrepo @ str '')'')) (\<lambda>_.
              io_bind (ensure_token E (str ''gitlab2gogs'') (fst auth)) (\<lambda>userauth.
              io_bind (create_repo E userauth (name gitlabrepo) (today E)
                         (Some (organizationNameFromGroupName (uni E) (membership gitlabrepo)))) (\<lambda>_.
              git_push E repo
                (baseurl @ str ''/''
                 @ organizationNameFromGroupName (uni E) (membership gitlabrepo)
                 @ str ''/'' @ name gitlabrepo @ str ''.git'')))))
      | _ \<Rightarrow> io_raise AttributeError)"

subsection \<open>The file system\<close>

text \<open>
  \<open>joinpath\<close> is the \<open>/\<close> of \<open>pathlib\<close> and the join of \<open>tarfile\<close>: an absolute second
  part stands alone. \<open>path_under d p\<close>: the path \<open>p\<close> lies inside the directory \<open>d\<close>.
  Paths are taken as they are written: a doubled \<open>/\<close> or a \<open>.\<close> part is not
  collapsed and a \<open>..\<close> part is not resolved, so the model follows the program on
  member names without such parts.
\<close>

definition joinpath :: "pystr \<Rightarrow> pystr \<Rightarrow> pystr" where
  "joinpath a b = (if prefix (str ''/'') b then b else a @ str ''/'' @ b)"

definition path_under :: "pystr \<Rightarrow> pystr \<Rightarrow> bool" where
  "path_under d p = prefix (d @ str ''/'') p"

text \<open>
  \<open>self.backupfile.extract(member, path)\<close> writes the member below \<open>path\<close>. The
  directories it creates on the way to the member are not recorded: only the file is.
\<close>

definition tar_extract :: "env \<Rightarrow> pystr \<Rightarrow> pystr \<Rightarrow> unit io" where
  "tar_extract E member path =
     io_bind (external E TarError (Extract member path))
       (\<lambda>_ w. (Inr (),
                w\<lparr>files := filter (\<lambda>f. fst f \<noteq> joinpath path member) (files w)
                             @ [(joinpath path member, extracted_readonly E member)]\<rparr>))"

text \<open>
  \<open>Repo.clone_from(url, to_path)\<close>: git creates the directory and the files of the
  clone, or fails and leaves nothing. The result is the working copy.
\<close>

definition clone_from :: "env \<Rightarrow> pystr \<Rightarrow> pystr \<Rightarrow> pystr io" where
  "clone_from E url to_path =
     io_bind (external E GitCommandError (CloneFrom url to_path))
       (\<lambda>_ w. (Inr to_path,
                w\<lparr>dirs := dirs w @ [to_path],
                  files := files w @ map (\<lambda>f. (to_path @ str ''/'' @ fst f, snd f)) (clone_tree E url)\<rparr>))"

text \<open>\<open>os.chmod(path, stat.S_IWRITE)\<close> clears the read-only attribute.\<close>

definition os_chmod :: "pystr \<Rightarrow> unit io" where
  "os_chmod path =
     (\<lambda>w. if path \<in> set (dirs w) \<or> path \<in> set (map fst (files w))
           then (Inr (), w\<lparr>files := map (\<lambda>f. (fst f, if fst f = path then False else snd f)) (files w)\<rparr>)
           else (Inl FileNotFoundError, w))"

definition os_unlink :: "env \<Rightarrow> pystr \<Rightarrow> unit io" where
  "os_unlink E path =
     (\<lambda>w. case map_of (files w) path of
             None \<Rightarrow> (Inl FileNotFoundError, w)
           | Some ro \<Rightarrow>
               if ro \<and> readonly_blocks_delete E then (Inl PermissionError, w)
               else (Inr (), w\<lparr>files := filter (\<lambda>f. fst f \<noteq> path) (files w)\<rparr>))"

definition os_rmdir :: "pystr \<Rightarrow> unit io" where
  "os_rmdir path =
     (\<lambda>w. if path \<in> set (dirs w) then (Inr (), w\<lparr>dirs := removeAll path (dirs w)\<rparr>)
           else (Inl FileNotFoundError, w))"

text \<open>Opening a directory to list it.\<close>

definition os_scandir :: "pystr \<Rightarrow> unit io" where
  "os_scandir path =
     (\<lambda>w. if path \<in> set (dirs w) then (Inr (), w)
           else if path \<in> set (map fst (files w)) then (Inl NotADirectoryError, w)
           else (Inl FileNotFoundError, w))"

text \<open>The handler \<open>remove_readonly(func, path, _)\<close> of \<open>importRepo\<close>.\<close>

definition remove_readonly :: "(pystr \<Rightarrow> unit io) \<Rightarrow> pystr \<Rightarrow> unit io" where
  "remove_readonly func path = io_bind (os_chmod path) (\<lambda>_. func path)"

text \<open>
  \<open>shutil.rmtree(path, onerror=handler)\<close>: the entries below \<open>path\<close> are deleted one
  by one and then the directory itself; a step that fails is handed to the handler
  with the function that failed, and the deletion goes on when the handler returns.
  When \<open>path\<close> cannot be opened as a directory the handler is called for it and
  \<open>rmtree\<close> returns.
\<close>

fun rmtree_entries ::
  "env \<Rightarrow> ((pystr \<Rightarrow> unit io) \<Rightarrow> pystr \<Rightarrow> unit io) \<Rightarrow> pystr list \<Rightarrow> unit io" where
  "rmtree_entries E onerror [] = io_return ()"
| "rmtree_entries E onerror (p # ps) =
     io_bind (io_catch (os_unlink E p) (\<lambda>_. onerror (os_unlink E) p))
       (\<lambda>_. rmtree_entries E onerror ps)"

definition rmtree :: "env \<Rightarrow> pystr \<Rightarrow> ((pystr \<Rightarrow> unit io) \<Rightarrow> pystr \<Rightarrow> unit io) \<Rightarrow> unit io" where
  "rmtree E path onerror =
     (\<lambda>w. if path \<in> set (dirs w)
           then io_bind (rmtree_entries E onerror (remdups (filter (path_under path) (map fst (files w)))))
                  (\<lambda>_. io_catch (os_rmdir path) (\<lambda>_. onerror os_rmdir path)) w
           else onerror os_scandir path w)"

text \<open>
  \<open>with tempfile.TemporaryDirectory() as tempdir\<close>: the directory is created, the body
  runs, and on every way out of the body the directory and all its contents are
  removed from the file system (the contract of the standard library).
\<close>

definition cleanup :: "pystr \<Rightarrow> unit io" where
  "cleanup d =
     (\<lambda>w. (Inr (),
            w\<lparr>dirs := filter (\<lambda>p. p \<noteq> d \<and> \<not> path_under d p) (dirs w),
              files := filter (\<lambda>f. \<not> path_under d (fst f)) (files w)\<rparr>))"

definition with_TemporaryDirectory :: "env \<Rightarrow> (pystr \<Rightarrow> 'a io) \<Rightarrow> 'a io" where
  "with_TemporaryDirectory E body =
     io_bind (external E OSError (Mkdtemp (mkdtemp E))) (\<lambda>_.
     io_bind (\<lambda>w. (Inr (), w\<lparr>dirs := dirs w @ [mkdtemp E]\<rparr>)) (\<lambda>_.
       try_finally (body (mkdtemp E)) (cleanup (mkdtemp E))))"

subsection \<open>The import driver\<close>

text \<open>The \<open>try ... finally\<close> block of \<open>importRepo\<close>, inside the temporary directory.\<close>

definition importRepo_block :: "env \<Rightarrow> GitlabBackup \<Rightarrow> GitLabRepo \<Rightarrow> pystr \<Rightarrow> unit io" where
  "importRepo_block E self gitlabrepo tempdir =
     (let temppath = tempdir;
          bundlepath = joinpath temppath (bundle gitlabrepo);
          clonedestpath = joinpath temppath (str ''clone'')
      in try_finally
           (io_bind (tar_extract E (bundle gitlabrepo) temppath) (\<lambda>_.
            io_bind (clone_from E bundlepath clonedestpath) (\<lambda>repo.
              if isUserRepo (uni E) self gitlabrepo
              then importUserRepo E self gitlabrepo repo
              else importGroupRepo E self gitlabrepo repo)))
           (rmtree E clonedestpath remove_readonly))"

definition importRepo :: "env \<Rightarrow> GitlabBackup \<Rightarrow> GitLabRepo \<Rightarrow> unit io" where
  "importRepo E self gitlabrepo = with_TemporaryDirectory E (importRepo_block E self gitlabrepo)"



section \<open>The words of the specification\<close>

text \<open>
  The specification's own reading of the organization identifier, written from its
  words and not from the code: the identity on a name composed solely of ASCII
  alphanumerics; otherwise every character outside \<open>[0-9a-zA-Z\-_./]\<close> becomes \<open>_\<close>,
  and then every \<open>/\<close> becomes a dot.
\<close>

definition spec_organizationIdFromGroupName :: "pystr \<Rightarrow> pystr" where
  "spec_organizationIdFromGroupName s =
     (if list_all ascii_alnum s then s
      else map (\<lambda>c. if c = 47 then 46 else c) (map (\<lambda>c. if re_keeps c then c else 95) s))"

text \<open>
  The shape \<open>repositories/<namespace>/<name>.bundle\<close> of a member path, as the
  specification words it: the path starts with \<open>repositories/\<close>, ends with
  \<open>.bundle\<close>, and the text between the two has a \<open>/\<close>, which parts the namespace from
  the name.
\<close>

definition has_shape :: "pystr \<Rightarrow> bool" where
  "has_shape p =
     (prefix (str ''repositories/'') p \<and> suffix (str ''.bundle'') p
      \<and> 47 \<in> set (drop (length (str ''repositories/''))
                       (take (length p - length (str ''.bundle'')) p)))"

text \<open>
  Two ASCII characters that differ in letter case at most: equal, or a capital letter
  and its small letter (32 code points further).
\<close>

definition same_letter :: "codepoint \<Rightarrow> codepoint \<Rightarrow> bool" where
  "same_letter c d = (c = d \<or> (ascii_upper c \<and> d = c + 32) \<or> (ascii_lower c \<and> c = d + 32))"

text \<open>The two parts of a string around its last \<open>/\<close>.\<close>

definition after_last_slash :: "pystr \<Rightarrow> pystr" where
  "after_last_slash s = rev (takeWhile (\<lambda>c. c \<noteq> 47) (rev s))"

definition before_last_slash :: "pystr \<Rightarrow> pystr" where
  "before_last_slash s = rev (drop 1 (dropWhile (\<lambda>c. c \<noteq> 47) (rev s)))"

section \<open>Predicates of the proofs\<close>

text \<open>An action that leaves the file system as it is, whatever it returns or raises.\<close>

definition keeps_fs :: "'a io \<Rightarrow> bool" where
  "keeps_fs m = (\<forall>w. files (snd (m w)) = files w \<and> dirs (snd (m w)) = dirs w)"

text \<open>Nothing lies inside the directory \<open>d\<close>: a temporary directory just created.\<close>

definition empty_dir :: "pystr \<Rightarrow> world \<Rightarrow> bool" where
  "empty_dir d w =
     (list_all (\<lambda>p. \<not> path_under d p) (dirs w) \<and> list_all (\<lambda>f. \<not> path_under d (fst f)) (files w))"

section \<open>Concrete inputs\<close>

text \<open>
  The inputs at which the theorems below are evaluated. \<open>latin_e_acute\<close> is the one
  row of the Unicode tables they need: U+00E9, the letter e with acute accent, is
  alphanumeric for \<open>str.isalnum\<close>. No theorem lower-cases a string beyond ASCII at
  these inputs, so \<open>uni_lower\<close> is never consulted there.
\<close>

definition latin_e_acute :: unicode where
  "latin_e_acute = \<lparr>uni_isalnum = (\<lambda>c. c = 233), uni_lower = (\<lambda>s. s)\<rparr>"

definition no_gogs :: "pystr list \<Rightarrow> pystr list \<Rightarrow> GitlabBackup" where
  "no_gogs members names = init_GitlabBackup latin_e_acute members names None None"

text \<open>
  \<open>greek_sigma\<close> holds the rows of the Unicode tables for two Greek words. The word of
  the capital letters alpha (U+0391) and sigma (U+03A3) is lower-cased by \<open>str.lower\<close>
  to alpha (U+03B1) and the final sigma (U+03C2), since the sigma ends the word; the
  word of the small letters alpha and sigma (U+03C3) is in lower case already. The
  first word is the upper-casing of the second (\<open>str.upper\<close>), so the two differ in
  letter case only.
\<close>

definition greek_sigma :: unicode where
  "greek_sigma =
     \<lparr>uni_isalnum = (\<lambda>c. c = 913 \<or> c = 931 \<or> c = 945 \<or> c = 962 \<or> c = 963),
      uni_lower = (\<lambda>s. if s = [913, 931] then [945, 962] else s)\<rparr>"

text \<open>An archive with a database dump and one bundle of a nested group.\<close>

definition nested :: GitlabBackup where
  "nested = no_gogs [str ''db/dump.sql'', str ''repositories/eng/sub/api.bundle''] []"

text \<open>
  An environment in which no call fails. A clone has a read-only file, and the
  operating system refuses to delete read-only files.
\<close>

definition quiet :: env where
  "quiet = \<lparr>uni = latin_e_acute, today = str ''today'', mkdtemp = str ''/tmp/t'',
     fails = (\<lambda>_. False), extracted_readonly = (\<lambda>_. False),
     clone_tree = (\<lambda>_. [(str ''HEAD'', False), (str ''pack'', True)]),
     readonly_blocks_delete = True\<rparr>"

definition empty_world :: world where
  "empty_world = \<lparr>repos = [], tokens = [], dirs = [], files = [], trace = []\<rparr>"

text \<open>A file system with a directory and a read-only file of the user.\<close>

definition home_world :: world where
  "home_world = empty_world\<lparr>dirs := [str ''/home/u''], files := [(str ''/home/u/notes'', True)]\<rparr>"








text \<open>
  An archive with one bundle of the group \<open>team\<close> and one of the user \<open>alice\<close>; the
  administrator of the server is \<open>root\<close>. In \<open>org_has_svc\<close> the organization \<open>team\<close>
  has the repository \<open>svc\<close> already, in \<open>admin_has_svc\<close> the administrator has a
  repository of that name and the organization has none, in \<open>alice_has_p\<close> the user
  has her repository already.
\<close>

definition team_backup :: GitlabBackup where
  "team_backup = init_GitlabBackup latin_e_acute
     [str ''repositories/team/svc.bundle'', str ''repositories/alice/p.bundle''] [str ''Alice'']
     (Some (str ''http://h'')) (Some (str ''root'', str ''pw''))"

definition rec_svc :: GitLabRepo where
  "rec_svc = \<lparr>bundle = str ''repositories/team/svc.bundle'', membership = str ''team'',
               name = str ''svc''\<rparr>"

definition rec_p :: GitLabRepo where
  "rec_p = \<lparr>bundle = str ''repositories/alice/p.bundle'', membership = str ''alice'',
             name = str ''p''\<rparr>"

definition org_has_svc :: world where
  "org_has_svc = empty_world\<lparr>repos := [(str ''team'', str ''svc'')]\<rparr>"

definition admin_has_svc :: world where
  "admin_has_svc = empty_world\<lparr>repos := [(str ''root'', str ''svc'')]\<rparr>"

definition alice_has_p :: world where
  "alice_has_p = empty_world\<lparr>repos := [(str ''alice'', str ''p'')]\<rparr>"

section \<open>Properties of the namespace classifier\<close>

lemma str_replace_char: "str_replace [a] [b] s = map (\<lambda>c. if c = a then b else c) s"
  by (induction s) auto

lemma re_sub_char: "re_sub [b] s = map (\<lambda>c. if re_keeps c then c else b) s"
  by (induction s) (auto simp: re_sub_def)

lemma sanitize_map:
  "str_replace (str ''/'') (str ''.'') (re_sub (str ''_'') s)
     = map (\<lambda>c. if re_keeps c then (if c = 47 then 46 else c) else 95) s"
  by (simp add: str_def str_replace_char re_sub_char)

lemmas ascii_defs = ascii_alnum_def ascii_digit_def ascii_upper_def ascii_lower_def

lemma ascii_alnum_keeps: "ascii_alnum c \<Longrightarrow> re_keeps c \<and> c \<noteq> 47 \<and> c < 128"
  by (auto simp: re_keeps_def ascii_defs)

lemma isalnum_ascii: "is_ascii s \<Longrightarrow> isalnum U s \<longleftrightarrow> s \<noteq> [] \<and> list_all ascii_alnum s"
  by (auto simp: isalnum_def is_ascii_def isalnum_char_def list_all_iff)

lemma sanitize_alnum_id:
  "list_all ascii_alnum s \<Longrightarrow> map (\<lambda>c. if re_keeps c then (if c = 47 then 46 else c) else 95) s = s"
  by (induction s) (auto dest: ascii_alnum_keeps)

text \<open>
  C3, at the input that separates the code from the claim. The name is the single
  letter U+00E9. It is not composed of ASCII alphanumerics, so the claim has it
  replaced by an underscore (code point 95); \<open>isalnum\<close> holds for it, so the code
  returns it unchanged.
\<close>

theorem organizationName_keeps_non_ascii_letter:
  "uni_isalnum U 233 \<Longrightarrow>
     organizationNameFromGroupName U [233] = [233]
     \<and> spec_organizationIdFromGroupName [233] = [95]"
  by (simp add: organizationNameFromGroupName_def isalnum_def isalnum_char_def
      spec_organizationIdFromGroupName_def re_keeps_def ascii_defs)

theorem organizationName_keeps_non_ascii_letter_witness:
  "uni_isalnum latin_e_acute 233
   \<and> organizationNameFromGroupName latin_e_acute [233] = [233]
   \<and> spec_organizationIdFromGroupName [233] = [95]"
  using organizationName_keeps_non_ascii_letter [of latin_e_acute]
  by (simp add: latin_e_acute_def)

text \<open>
  On a name of ASCII characters the code and the specification's reading agree: the
  identity on ASCII alphanumerics, the two substitutions otherwise.
\<close>

theorem organizationName_ascii_agrees:
  "is_ascii s \<Longrightarrow> organizationNameFromGroupName U s = spec_organizationIdFromGroupName s"
proof (cases "list_all ascii_alnum s")
  case True
  assume "is_ascii s"
  with True show ?thesis
    by (cases "s = []")
       (simp_all add: organizationNameFromGroupName_def spec_organizationIdFromGroupName_def
          isalnum_ascii sanitize_map)
next
  case False
  assume "is_ascii s"
  with False show ?thesis
    by (simp add: organizationNameFromGroupName_def spec_organizationIdFromGroupName_def
        isalnum_ascii sanitize_map)
qed

theorem organizationName_ascii_agrees_witness:
  "is_ascii (str ''Team One'')
   \<and> organizationNameFromGroupName latin_e_acute (str ''Team One'') = str ''Team_One''
   \<and> spec_organizationIdFromGroupName (str ''Team One'') = str ''Team_One''"
  using organizationName_ascii_agrees [of "str ''Team One''" latin_e_acute]
  by (simp add: is_ascii_def str_def spec_organizationIdFromGroupName_def re_keeps_def ascii_defs)

text \<open>
  C6: the organization name of an organization name is that name again, for every
  input string.
\<close>

theorem organizationName_idempotent:
  "organizationNameFromGroupName U (organizationNameFromGroupName U s)
     = organizationNameFromGroupName U s"
proof (cases "isalnum U s")
  case True
  then show ?thesis by (simp add: organizationNameFromGroupName_def)
next
  case False
  let ?t = "map (\<lambda>c. if re_keeps c then (if c = 47 then 46 else c) else 95) s"
  have out: "organizationNameFromGroupName U s = ?t"
    using False by (simp add: organizationNameFromGroupName_def sanitize_map)
  have "map (\<lambda>c. if re_keeps c then (if c = 47 then 46 else c) else 95) ?t = ?t"
    by (auto simp: re_keeps_def ascii_defs)
  then have "organizationNameFromGroupName U ?t = ?t"
    by (simp add: organizationNameFromGroupName_def sanitize_map)
  with out show ?thesis by simp
qed

theorem organizationName_idempotent_witness:
  "organizationNameFromGroupName latin_e_acute
     (organizationNameFromGroupName latin_e_acute (str ''eng/sub ops''))
   = organizationNameFromGroupName latin_e_acute (str ''eng/sub ops'')
   \<and> organizationNameFromGroupName latin_e_acute (str ''eng/sub ops'') = str ''eng.sub_ops''"
  using organizationName_idempotent [of latin_e_acute "str ''eng/sub ops''"]
  by (simp add: organizationNameFromGroupName_def str_replace_char re_sub_char isalnum_def
      isalnum_char_def str_def re_keeps_def ascii_defs)

text \<open>
  C10: the organization name has no \<open>/\<close> (code point 47), for every input string: an
  alphanumeric string has none, and the substitution branch replaces each one.
\<close>

theorem organizationName_no_slash:
  "47 \<notin> set (organizationNameFromGroupName U s)"
proof (cases "isalnum U s")
  case True
  then have "47 \<notin> set s"
    by (auto simp: isalnum_def list_all_iff isalnum_char_def ascii_defs)
  with True show ?thesis by (simp add: organizationNameFromGroupName_def)
next
  case False
  then show ?thesis
    by (auto simp: organizationNameFromGroupName_def sanitize_map)
qed

theorem organizationName_no_slash_witness:
  "47 \<in> set (str ''eng/sub'')
   \<and> 47 \<notin> set (organizationNameFromGroupName latin_e_acute (str ''eng/sub''))"
  using organizationName_no_slash [of latin_e_acute "str ''eng/sub''"]
  by (simp add: str_def)

section \<open>Properties of the user test\<close>

lemma same_letter_lower:
  "c < 128 \<Longrightarrow> same_letter c d \<Longrightarrow> d < 128 \<and> lower_char c = lower_char d"
  by (auto simp: same_letter_def lower_char_def ascii_defs)

lemma same_letters_lower:
  "list_all2 same_letter s t \<Longrightarrow> is_ascii s \<Longrightarrow> is_ascii t \<and> map lower_char s = map lower_char t"
  by (induction rule: list_all2_induct) (auto simp: is_ascii_def dest: same_letter_lower)

text \<open>
  C7 fails on the code beyond ASCII: \<open>str.lower\<close> is not a case fold. The known user
  is the Greek word of small alpha and sigma. The namespace written with these small
  letters is a user namespace; the same word in capital letters is not, since its
  lower-casing ends in the final sigma.
\<close>

theorem isUserRepo_case_change_counterexample:
  "isUserRepo greek_sigma (init_GitlabBackup greek_sigma [] [[945, 963]] None None)
     \<lparr>bundle = [], membership = [945, 963], name = []\<rparr>
   \<and> \<not> isUserRepo greek_sigma (init_GitlabBackup greek_sigma [] [[945, 963]] None None)
       \<lparr>bundle = [], membership = [913, 931], name = []\<rparr>"
  by (simp add: isUserRepo_def init_GitlabBackup_def lower_def is_ascii_def greek_sigma_def)

text \<open>
  C7 as amended: with the user names the object stores (lower-cased by \<open>__init__\<close>),
  the test holds exactly when the lower-cased namespace is the lower-casing of a known
  user name, for every namespace. So two namespaces with the same lower-casing get the
  same answer; and two namespaces of ASCII characters that differ in letter case only
  have the same lower-casing and get the same answer.
\<close>

theorem isUserRepo_lower_casing:
  "(isUserRepo U (init_GitlabBackup U members names url admin) r
      \<longleftrightarrow> lower U (membership r) \<in> set (map (lower U) names))
   \<and> (lower U (membership r) = lower U (membership r')
        \<longrightarrow> isUserRepo U self r = isUserRepo U self r')
   \<and> (is_ascii (membership r) \<and> list_all2 same_letter (membership r) (membership r')
        \<longrightarrow> lower U (membership r) = lower U (membership r')
            \<and> isUserRepo U self r = isUserRepo U self r')"
proof (intro conjI)
  show "isUserRepo U (init_GitlabBackup U members names url admin) r
      \<longleftrightarrow> lower U (membership r) \<in> set (map (lower U) names)"
    by (simp add: isUserRepo_def init_GitlabBackup_def split: option.splits prod.splits)
next
  show "lower U (membership r) = lower U (membership r')
        \<longrightarrow> isUserRepo U self r = isUserRepo U self r'"
    by (simp add: isUserRepo_def)
next
  show "is_ascii (membership r) \<and> list_all2 same_letter (membership r) (membership r')
        \<longrightarrow> lower U (membership r) = lower U (membership r')
            \<and> isUserRepo U self r = isUserRepo U self r'"
  proof
    assume "is_ascii (membership r) \<and> list_all2 same_letter (membership r) (membership r')"
    then have "lower U (membership r) = lower U (membership r')"
      using same_letters_lower [of "membership r" "membership r'"] by (simp add: lower_def)
    then show "lower U (membership r) = lower U (membership r')
            \<and> isUserRepo U self r = isUserRepo U self r'"
      by (simp add: isUserRepo_def)
  qed
qed

theorem isUserRepo_lower_casing_witness:
  "is_ascii (str ''ALICE'') \<and> list_all2 same_letter (str ''ALICE'') (str ''alice'')
   \<and> lower latin_e_acute (str ''ALICE'') = lower latin_e_acute (str ''alice'')
   \<and> isUserRepo latin_e_acute (no_gogs [] [str ''Alice''])
       \<lparr>bundle = [], membership = str ''ALICE'', name = []\<rparr>
   \<and> isUserRepo latin_e_acute (no_gogs [] [str ''Alice''])
       \<lparr>bundle = [], membership = str ''alice'', name = []\<rparr>
   \<and> \<not> isUserRepo latin_e_acute (no_gogs [] [str ''Alice''])
       \<lparr>bundle = [], membership = str ''alicia'', name = []\<rparr>"
  using isUserRepo_lower_casing [of latin_e_acute "[]" "[str ''Alice'']" None None
      "\<lparr>bundle = [], membership = str ''ALICE'', name = []\<rparr>"
      "\<lparr>bundle = [], membership = str ''alice'', name = []\<rparr>"
      "no_gogs [] [str ''Alice'']"]
  by (simp add: no_gogs_def isUserRepo_def init_GitlabBackup_def lower_def is_ascii_def
      lower_char_def same_letter_def ascii_defs str_def)

section \<open>Properties of the archive index\<close>

subsection \<open>The greedy star\<close>

text \<open>
  The star succeeds as soon as the continuation accepts some split of the input whose
  first part has no line feed; and when it succeeds it has taken the longest such
  first part that the continuation accepts.
\<close>

lemma re_star_dot_complete:
  "list_all re_dot a \<Longrightarrow> k (g @ a) b \<noteq> None \<Longrightarrow> re_star_dot k g (a @ b) \<noteq> None"
proof (induction a arbitrary: g)
  case Nil
  then show ?case by (cases b) (auto split: option.splits)
next
  case (Cons c a)
  then have "re_star_dot k (g @ [c]) (a @ b) \<noteq> None" by simp
  with Cons.prems show ?case by (auto split: option.splits)
qed

lemma re_star_dot_sound:
  "re_star_dot k g s = Some m \<Longrightarrow>
     \<exists>a b. s = a @ b \<and> list_all re_dot a \<and> k (g @ a) b = Some m \<and>
       (\<forall>a' b'. s = a' @ b' \<and> list_all re_dot a' \<and> length a < length a'
          \<longrightarrow> k (g @ a') b' = None)"
proof (induction s arbitrary: g)
  case Nil
  then show ?case by simp
next
  case (Cons c cs)
  show ?case
  proof (cases "re_dot c \<and> re_star_dot k (g @ [c]) cs \<noteq> None")
    case True
    then have "re_star_dot k (g @ [c]) cs = Some m" using Cons.prems by auto
    from Cons.IH [OF this] obtain a b where ab: "cs = a @ b" "list_all re_dot a"
      "k ((g @ [c]) @ a) b = Some m"
      "\<forall>a' b'. cs = a' @ b' \<and> list_all re_dot a' \<and> length a < length a'
         \<longrightarrow> k ((g @ [c]) @ a') b' = None"
      by blast
    have "\<forall>a' b'. c # cs = a' @ b' \<and> list_all re_dot a' \<and> length (c # a) < length a'
            \<longrightarrow> k (g @ a') b' = None"
    proof (intro allI impI)
      fix a' b'
      assume h: "c # cs = a' @ b' \<and> list_all re_dot a' \<and> length (c # a) < length a'"
      then obtain a'' where a'': "a' = c # a''" by (cases a') auto
      with h have "cs = a'' @ b' \<and> list_all re_dot a'' \<and> length a < length a''" by auto
      with ab(4) have "k ((g @ [c]) @ a'') b' = None" by blast
      then show "k (g @ a') b' = None" using a'' by simp
    qed
    with ab True show ?thesis
      by (intro exI [of _ "c # a"] exI [of _ b]) auto
  next
    case False
    then have km: "k g (c # cs) = Some m"
      using Cons.prems by (auto split: if_splits option.splits)
    have "\<forall>a' b'. c # cs = a' @ b' \<and> list_all re_dot a' \<and> length ([]::pystr) < length a'
            \<longrightarrow> k (g @ a') b' = None"
    proof (intro allI impI)
      fix a' b'
      assume h: "c # cs = a' @ b' \<and> list_all re_dot a' \<and> length ([]::pystr) < length a'"
      then obtain a'' where a'': "a' = c # a''" by (cases a') auto
      with h have dc: "re_dot c" and cs: "cs = a'' @ b'" and d: "list_all re_dot a''" by auto
      with False have none: "re_star_dot k (g @ [c]) cs = None" by simp
      show "k (g @ a') b' = None"
      proof (rule ccontr)
        assume "k (g @ a') b' \<noteq> None"
        then have "k ((g @ [c]) @ a'') b' \<noteq> None" using a'' by simp
        with d cs have "re_star_dot k (g @ [c]) cs \<noteq> None"
          using re_star_dot_complete [of a'' k "g @ [c]" b'] by simp
        with none show False by simp
      qed
    qed
    with km show ?thesis
      by (intro exI [of _ "[]"] exI [of _ "c # cs"]) auto
  qed
qed

subsection \<open>What the pattern matches\<close>

lemma re_lit_Some: "re_lit l s = Some t \<longleftrightarrow> s = l @ t"
  by (auto simp: re_lit_def prefix_def)

lemma re_lit_append: "re_lit l (l @ t) = Some t"
  by (simp add: re_lit_def)

lemma re_tail_Some:
  "re_tail g1 g2 s = Some m \<longleftrightarrow> m = (g1, g2) \<and> (\<exists>e. s = str ''.bundle'' @ e \<and> re_end e)"
  by (auto simp: re_tail_def re_lit_Some re_lit_append split: option.splits)

lemma bundle_suffix_unique:
  assumes "g @ str ''.bundle'' @ e = g' @ str ''.bundle'' @ e'" "re_end e" "re_end e'"
  shows "g = g' \<and> e = e'"
proof -
  have "last (g @ str ''.bundle'' @ e) = last (g' @ str ''.bundle'' @ e')"
    using assms(1) by simp
  with assms(2,3) have "e = e'"
    by (auto simp: re_end_def str_def)
  with assms(1) show ?thesis by simp
qed

lemma re_star_tail_Some:
  "re_star_dot (re_tail g1) [] s = Some m \<longleftrightarrow>
     (\<exists>g2 e. m = (g1, g2) \<and> s = g2 @ str ''.bundle'' @ e \<and> list_all re_dot g2 \<and> re_end e)"
proof
  assume "re_star_dot (re_tail g1) [] s = Some m"
  from re_star_dot_sound [OF this] show
    "\<exists>g2 e. m = (g1, g2) \<and> s = g2 @ str ''.bundle'' @ e \<and> list_all re_dot g2 \<and> re_end e"
    by (auto simp: re_tail_Some)
next
  assume "\<exists>g2 e. m = (g1, g2) \<and> s = g2 @ str ''.bundle'' @ e \<and> list_all re_dot g2 \<and> re_end e"
  then obtain g2 e where h: "m = (g1, g2)" "s = g2 @ str ''.bundle'' @ e"
    "list_all re_dot g2" "re_end e"
    by blast
  then have "re_tail g1 ([] @ g2) (str ''.bundle'' @ e) \<noteq> None"
    by (simp add: re_tail_def re_lit_append)
  with h(2,3) re_star_dot_complete [of g2 "re_tail g1" "[]" "str ''.bundle'' @ e"]
  obtain m' where m': "re_star_dot (re_tail g1) [] s = Some m'" by auto
  from re_star_dot_sound [OF this] obtain g2' e' where
    h': "m' = (g1, g2')" "s = g2' @ str ''.bundle'' @ e'" "re_end e'"
    by (auto simp: re_tail_Some)
  from bundle_suffix_unique [of g2 e g2' e'] h h' have "g2 = g2'" by simp
  with m' h h' show "re_star_dot (re_tail g1) [] s = Some m" by simp
qed

lemma re_mid_Some:
  "re_mid g1 s = Some m \<longleftrightarrow>
     (\<exists>g2 e. m = (g1, g2) \<and> s = str ''/'' @ g2 @ str ''.bundle'' @ e
        \<and> list_all re_dot g2 \<and> re_end e)"
  by (auto simp: re_mid_def re_lit_Some re_lit_append re_star_tail_Some split: option.splits)

lemma re_match_sound:
  assumes "re_match s = Some (g1, g2)"
  shows "\<exists>e. s = str ''repositories/'' @ g1 @ str ''/'' @ g2 @ str ''.bundle'' @ e \<and> re_end e
           \<and> list_all re_dot g1 \<and> list_all re_dot g2 \<and> 47 \<notin> set g2"
proof -
  from assms obtain s1 where s: "s = str ''repositories/'' @ s1"
    and st: "re_star_dot re_mid [] s1 = Some (g1, g2)"
    by (auto simp: re_match_def re_lit_Some split: option.splits)
  from re_star_dot_sound [OF st] obtain a b where ab: "s1 = a @ b" "list_all re_dot a"
    "re_mid a b = Some (g1, g2)"
    and longest: "\<And>a' b'. s1 = a' @ b' \<Longrightarrow> list_all re_dot a' \<Longrightarrow> length a < length a'
                    \<Longrightarrow> re_mid a' b' = None"
    by auto
  from ab(3) obtain e where e: "a = g1" "b = str ''/'' @ g2 @ str ''.bundle'' @ e"
    "list_all re_dot g2" "re_end e"
    by (auto simp: re_mid_Some)
  have "47 \<notin> set g2"
  proof
    assume "47 \<in> set g2"
    then obtain x y where xy: "g2 = x @ 47 # y" by (auto dest: split_list)
    let ?a' = "g1 @ 47 # x" and ?b' = "str ''/'' @ y @ str ''.bundle'' @ e"
    have "s1 = ?a' @ ?b'" using ab(1) e(1,2) xy by (simp add: str_def)
    moreover have "list_all re_dot ?a'" using ab(2) e(1,3) xy by (simp add: re_dot_def)
    moreover have "length a < length ?a'" using e(1) by simp
    ultimately have "re_mid ?a' ?b' = None" by (rule longest)
    moreover have "re_mid ?a' ?b' = Some (?a', y)"
      using e(3,4) xy by (auto simp: re_mid_Some)
    ultimately show False by simp
  qed
  with s ab e show ?thesis by auto
qed

lemma re_match_complete:
  assumes s: "s = str ''repositories/'' @ g1 @ str ''/'' @ g2 @ str ''.bundle'' @ e"
    and e: "re_end e" and d1: "list_all re_dot g1" and d2: "list_all re_dot g2"
    and ns: "47 \<notin> set g2"
  shows "re_match s = Some (g1, g2)"
proof -
  let ?b = "str ''/'' @ g2 @ str ''.bundle'' @ e"
  have mid: "re_mid g1 ?b = Some (g1, g2)" using e d2 by (auto simp: re_mid_Some)
  then have "re_mid ([] @ g1) ?b \<noteq> None" by simp
  with d1 re_star_dot_complete [of g1 re_mid "[]" ?b]
  obtain m where m: "re_star_dot re_mid [] (g1 @ ?b) = Some m" by auto
  from re_star_dot_sound [OF this] obtain a b where ab: "g1 @ ?b = a @ b" "list_all re_dot a"
    "re_mid a b = Some m"
    and longest: "\<And>a' b'. g1 @ ?b = a' @ b' \<Longrightarrow> list_all re_dot a' \<Longrightarrow> length a < length a'
                    \<Longrightarrow> re_mid a' b' = None"
    by auto
  from ab(3) obtain g2' e' where m': "m = (a, g2')" "b = str ''/'' @ g2' @ str ''.bundle'' @ e'"
    "re_end e'"
    by (auto simp: re_mid_Some)
  have "\<not> length a < length g1"
    using longest [of g1 ?b] d1 mid by auto
  moreover have "\<not> length g1 < length a"
  proof
    assume less: "length g1 < length a"
    from ab(1) obtain z where z: "a = g1 @ z" "?b = z @ b"
      using less by (auto simp: append_eq_append_conv2)
    with less obtain z' where "z = 47 # z'" by (cases z) (auto simp: str_def)
    with z m' have "g2 @ str ''.bundle'' @ e = z' @ 47 # g2' @ str ''.bundle'' @ e'"
      by (simp add: str_def)
    then have "47 \<in> set (g2 @ str ''.bundle'' @ e)" by simp
    with ns e show False by (auto simp: str_def re_end_def)
  qed
  ultimately have "length a = length g1" by simp
  with ab(1) have eq: "a = g1" "b = ?b" by auto
  with m' have "g2 @ str ''.bundle'' @ e = g2' @ str ''.bundle'' @ e'" by simp
  from bundle_suffix_unique [OF this e m'(3)] have "g2 = g2'" by simp
  with m m' eq s show ?thesis by (simp add: re_match_def re_lit_append)
qed

lemma iter_member:
  "r \<in> set (iter_GitlabBackup self) \<longleftrightarrow>
     bundle r \<in> set (backupfile self) \<and> re_match (bundle r) = Some (membership r, name r)"
  by (cases r)
     (auto simp: iter_GitlabBackup_def re_findall_def image_iff split: option.splits)

lemmas re_defs = re_findall_def re_match_def re_mid_def re_tail_def re_lit_def re_end_def re_dot_def

lemma last_slash_split:
  assumes "47 \<in> set s"
  shows "s = before_last_slash s @ 47 # after_last_slash s \<and> 47 \<notin> set (after_last_slash s)"
proof -
  let ?P = "\<lambda>c::nat. c \<noteq> 47"
  from assms have "dropWhile ?P (rev s) \<noteq> []" by (simp add: dropWhile_eq_Nil_conv)
  from hd_dropWhile [OF this] have "hd (dropWhile ?P (rev s)) = 47" by simp
  with \<open>dropWhile ?P (rev s) \<noteq> []\<close> obtain t where t: "dropWhile ?P (rev s) = 47 # t"
    by (cases "dropWhile ?P (rev s)") auto
  have "rev s = takeWhile ?P (rev s) @ dropWhile ?P (rev s)" by simp
  then have "rev (rev s) = rev (takeWhile ?P (rev s) @ 47 # t)" using t by simp
  then have "s = rev t @ 47 # rev (takeWhile ?P (rev s))" by simp
  moreover have "47 \<notin> set (takeWhile ?P (rev s))" by (auto dest: set_takeWhileD)
  ultimately show ?thesis using t by (simp add: after_last_slash_def before_last_slash_def)
qed

lemma re_findall_last_slash:
  assumes "47 \<in> set i" "list_all re_dot i"
  shows "re_findall (str ''repositories/'' @ i @ str ''.bundle'')
           = [(before_last_slash i, after_last_slash i)]"
proof -
  from assms(1) have sp: "i = before_last_slash i @ 47 # after_last_slash i"
    "47 \<notin> set (after_last_slash i)"
    using last_slash_split [of i] by simp_all
  have "list_all re_dot (before_last_slash i @ 47 # after_last_slash i)"
    using assms(2) sp(1) by simp
  then have d: "list_all re_dot (before_last_slash i)" "list_all re_dot (after_last_slash i)"
    by simp_all
  have "str ''repositories/'' @ i @ str ''.bundle''
      = str ''repositories/'' @ before_last_slash i @ str ''/'' @ after_last_slash i
          @ str ''.bundle'' @ []"
    using sp(1) by (simp add: str_def)
  from re_match_complete [OF this _ d sp(2)] show ?thesis
    by (simp add: re_findall_def re_end_def)
qed

lemma length_literals:
  "length (str ''repositories/'') = 13" "length (str ''.bundle'') = 7"
  by (simp_all add: str_def)

lemma has_shape_iff:
  "has_shape s \<longleftrightarrow> (\<exists>i. s = str ''repositories/'' @ i @ str ''.bundle'' \<and> 47 \<in> set i)"
proof
  assume h: "has_shape s"
  then obtain u where u: "s = u @ str ''.bundle''" by (auto simp: has_shape_def suffix_def)
  then have tk: "take (length s - 7) s = u" by (simp add: length_literals)
  with h have in13: "47 \<in> set (drop 13 u)" by (simp add: has_shape_def length_literals)
  then have len: "13 < length u" by (cases "13 < length u") auto
  from h u have "prefix (str ''repositories/'') (u @ str ''.bundle'')" by (simp add: has_shape_def)
  with len have "prefix (str ''repositories/'') u"
    by (auto simp: prefix_append str_def dest: arg_cong [where f = length])
  then obtain i where i: "u = str ''repositories/'' @ i" by (auto simp: prefix_def)
  with in13 have "47 \<in> set i" by (simp add: str_def)
  with u i show "\<exists>i. s = str ''repositories/'' @ i @ str ''.bundle'' \<and> 47 \<in> set i" by auto
next
  assume "\<exists>i. s = str ''repositories/'' @ i @ str ''.bundle'' \<and> 47 \<in> set i"
  then show "has_shape s" by (auto simp: has_shape_def length_literals suffix_def)
qed

lemma re_match_shape:
  assumes "list_all re_dot s"
  shows "re_match s \<noteq> None \<longleftrightarrow> has_shape s"
proof
  assume "re_match s \<noteq> None"
  then obtain g1 g2 where "re_match s = Some (g1, g2)" by auto
  from re_match_sound [OF this] obtain e where
    e: "s = str ''repositories/'' @ g1 @ str ''/'' @ g2 @ str ''.bundle'' @ e" "re_end e" by auto
  with assms have "e = []" by (auto simp: re_end_def re_dot_def)
  with e have "s = str ''repositories/'' @ (g1 @ 47 # g2) @ str ''.bundle''" by (simp add: str_def)
  then show "has_shape s" unfolding has_shape_iff by (intro exI [of _ "g1 @ 47 # g2"]) simp
next
  assume "has_shape s"
  then obtain i where i: "s = str ''repositories/'' @ i @ str ''.bundle''" "47 \<in> set i"
    by (auto simp: has_shape_iff)
  with assms have "list_all re_dot i" by simp
  with i re_findall_last_slash [of i] show "re_match s \<noteq> None"
    by (auto simp: re_findall_def split: option.splits)
qed

text \<open>
  C9: the name of a record the index yields has no \<open>/\<close> (code point 47), and the
  member path is \<open>repositories/\<close>, the namespace, a \<open>/\<close>, the name and \<open>.bundle\<close>
  (with a line feed after it at most): the path is split at its last \<open>/\<close>. And for a
  path \<open>repositories/i.bundle\<close> whose interior \<open>i\<close> has a \<open>/\<close> (and no line feed), the
  match is the text of \<open>i\<close> before its last \<open>/\<close> and the text after it.
\<close>

theorem iter_name_has_no_slash:
  "(r \<in> set (iter_GitlabBackup self) \<longrightarrow>
      47 \<notin> set (name r) \<and> bundle r \<in> set (backupfile self)
      \<and> (bundle r = str ''repositories/'' @ membership r @ str ''/'' @ name r @ str ''.bundle''
         \<or> bundle r = str ''repositories/'' @ membership r @ str ''/'' @ name r
                        @ str ''.bundle'' @ [10]))
   \<and> (47 \<in> set i \<and> list_all re_dot i \<longrightarrow>
        re_findall (str ''repositories/'' @ i @ str ''.bundle'')
          = [(before_last_slash i, after_last_slash i)])"
proof (rule conjI; rule impI)
  assume "r \<in> set (iter_GitlabBackup self)"
  then have m: "bundle r \<in> set (backupfile self)"
    "re_match (bundle r) = Some (membership r, name r)"
    by (simp_all add: iter_member)
  from re_match_sound [OF m(2)] m(1)
  show "47 \<notin> set (name r) \<and> bundle r \<in> set (backupfile self)
      \<and> (bundle r = str ''repositories/'' @ membership r @ str ''/'' @ name r @ str ''.bundle''
         \<or> bundle r = str ''repositories/'' @ membership r @ str ''/'' @ name r
                        @ str ''.bundle'' @ [10])"
    by (auto simp: re_end_def)
next
  assume "47 \<in> set i \<and> list_all re_dot i"
  then show "re_findall (str ''repositories/'' @ i @ str ''.bundle'')
          = [(before_last_slash i, after_last_slash i)]"
    by (simp add: re_findall_last_slash)
qed

theorem iter_name_has_no_slash_witness:
  "\<lparr>bundle = str ''repositories/eng/sub/api.bundle'', membership = str ''eng/sub'',
    name = str ''api''\<rparr> \<in> set (iter_GitlabBackup nested)
   \<and> 47 \<notin> set (str ''api'')
   \<and> re_findall (str ''repositories/'' @ str ''eng/sub/api'' @ str ''.bundle'')
       = [(str ''eng/sub'', str ''api'')]"
  using iter_name_has_no_slash [of
      "\<lparr>bundle = str ''repositories/eng/sub/api.bundle'', membership = str ''eng/sub'',
        name = str ''api''\<rparr>"
      nested "str ''eng/sub/api''"]
  by (simp add: nested_def no_gogs_def init_GitlabBackup_def iter_GitlabBackup_def re_defs
      str_def after_last_slash_def before_last_slash_def)

text \<open>
  C5, at two inputs that separate the code from the claim. A member path with a line
  feed after \<open>.bundle\<close> has not the shape, yet \<open>$\<close> accepts it and a record is
  yielded. A member path whose namespace has a line feed has the shape, yet \<open>.\<close>
  refuses the line feed and no record is yielded.
\<close>

theorem iter_line_feed_paths:
  "iter_GitlabBackup (no_gogs [str ''repositories/a/b.bundle'' @ [10]] [])
     = [\<lparr>bundle = str ''repositories/a/b.bundle'' @ [10], membership = str ''a'',
         name = str ''b''\<rparr>]
   \<and> \<not> has_shape (str ''repositories/a/b.bundle'' @ [10])
   \<and> iter_GitlabBackup (no_gogs [str ''repositories/a'' @ [10] @ str ''b/c.bundle''] []) = []
   \<and> has_shape (str ''repositories/a'' @ [10] @ str ''b/c.bundle'')"
  by code_simp

text \<open>
  When no member path has a line feed, the index yields the members that have the
  shape, one record each, in the order of the archive.
\<close>

theorem iter_yields_shaped_members:
  assumes "list_all (list_all re_dot) (backupfile self)"
  shows "map bundle (iter_GitlabBackup self) = filter has_shape (backupfile self)"
proof -
  have "map bundle (iter_GitlabBackup self) = filter (\<lambda>n. re_match n \<noteq> None) (backupfile self)"
    by (induction "backupfile self" arbitrary: self)
       (auto simp: iter_GitlabBackup_def re_findall_def comp_def filter_map split: option.splits)
  also have "\<dots> = filter has_shape (backupfile self)"
  proof (rule filter_cong [OF refl])
    fix n assume "n \<in> set (backupfile self)"
    with assms have "list_all re_dot n" by (simp add: list_all_iff)
    then show "(re_match n \<noteq> None) = has_shape n" by (rule re_match_shape)
  qed
  finally show ?thesis .
qed

theorem iter_yields_shaped_members_witness:
  "list_all (list_all re_dot) (backupfile nested)
   \<and> map bundle (iter_GitlabBackup nested) = [str ''repositories/eng/sub/api.bundle'']
   \<and> filter has_shape (backupfile nested) = [str ''repositories/eng/sub/api.bundle'']"
proof -
  have a: "list_all (list_all re_dot) (backupfile nested)" by code_simp
  have b: "filter has_shape (backupfile nested) = [str ''repositories/eng/sub/api.bundle'']"
    by code_simp
  from iter_yields_shaped_members [OF a] a b show ?thesis by simp
qed

section \<open>Properties of the import\<close>

lemmas io_defs = io_return_def io_raise_def io_bind_def io_catch_def try_finally_def emit_def
  echo_def external_def

lemma keeps_fs_return: "keeps_fs (io_return x)" and keeps_fs_raise: "keeps_fs (io_raise e)"
  and keeps_fs_emit: "keeps_fs (emit ev)"
  by (simp_all add: keeps_fs_def io_defs)

lemma keeps_fs_bind: "keeps_fs m \<Longrightarrow> (\<And>x. keeps_fs (f x)) \<Longrightarrow> keeps_fs (io_bind m f)"
  by (auto simp: keeps_fs_def io_bind_def split: prod.splits sum.splits) (metis snd_conv)+

lemma keeps_fs_if: "keeps_fs a \<Longrightarrow> keeps_fs b \<Longrightarrow> keeps_fs (if c then a else b)"
  by simp

lemma keeps_fs_external: "keeps_fs (external E err ev)"
  unfolding external_def
  by (intro keeps_fs_bind keeps_fs_emit keeps_fs_if keeps_fs_raise keeps_fs_return)

lemma keeps_fs_echo: "keeps_fs (echo s)"
  by (simp add: echo_def keeps_fs_emit)

lemma keeps_fs_api:
  "keeps_fs (repo_exists E u n)" "keeps_fs (ensure_token E l u)"
  "keeps_fs (create_repo E u n de org)" "keeps_fs (git_push E rp url)"
  unfolding repo_exists_def ensure_token_def create_repo_def git_push_def
  by (intro keeps_fs_bind keeps_fs_external; simp add: keeps_fs_def Let_def)+

lemma keeps_fs_importUserRepo: "keeps_fs (importUserRepo E self r repo)"
  unfolding importUserRepo_def
  by (auto split: option.splits
      intro!: keeps_fs_bind keeps_fs_if keeps_fs_api keeps_fs_echo keeps_fs_raise)

lemma keeps_fs_importGroupRepo: "keeps_fs (importGroupRepo E self r repo)"
  unfolding importGroupRepo_def
  by (auto split: option.splits
      intro!: keeps_fs_bind keeps_fs_if keeps_fs_api keeps_fs_echo keeps_fs_raise)

lemma map_of_chmod:
  "map_of (map (\<lambda>f. (fst f, if fst f = p then False else snd f)) xs) p
     = (if p \<in> fst ` set xs then Some False else None)"
  by (induction xs) auto

lemma filter_chmod:
  "filter (\<lambda>f. fst f \<noteq> p) (map (\<lambda>f. (fst f, if fst f = p then False else snd f)) xs)
     = filter (\<lambda>f. fst f \<noteq> p) xs"
  by (induction xs) auto

lemma unlink_with_handler:
  assumes "p \<in> fst ` set (files w)"
  shows "io_catch (os_unlink E p) (\<lambda>_. remove_readonly (os_unlink E) p) w
           = (Inr (), w\<lparr>files := filter (\<lambda>f. fst f \<noteq> p) (files w)\<rparr>)"
proof -
  from assms obtain ro where ro: "map_of (files w) p = Some ro"
    by (cases "map_of (files w) p") (auto simp: map_of_eq_None_iff)
  show ?thesis
  proof (cases "ro \<and> readonly_blocks_delete E")
    case False
    with ro show ?thesis by (auto simp: io_catch_def os_unlink_def)
  next
    case True
    with ro assms show ?thesis
      by (simp add: io_catch_def os_unlink_def remove_readonly_def io_bind_def os_chmod_def
          map_of_chmod filter_chmod)
  qed
qed

lemma rmtree_entries_removes:
  "distinct ps \<Longrightarrow> set ps \<subseteq> fst ` set (files w) \<Longrightarrow>
     rmtree_entries E remove_readonly ps w
       = (Inr (), w\<lparr>files := filter (\<lambda>f. fst f \<notin> set ps) (files w)\<rparr>)"
proof (induction ps arbitrary: w)
  case Nil
  then show ?case by (simp add: io_return_def)
next
  case (Cons p ps)
  let ?w = "w\<lparr>files := filter (\<lambda>f. fst f \<noteq> p) (files w)\<rparr>"
  from Cons.prems have step:
    "io_catch (os_unlink E p) (\<lambda>_. remove_readonly (os_unlink E) p) w = (Inr (), ?w)"
    by (intro unlink_with_handler) simp
  have "set ps \<subseteq> fst ` set (files ?w)"
  proof
    fix x assume "x \<in> set ps"
    with Cons.prems have "x \<noteq> p" "x \<in> fst ` set (files w)" by auto
    then show "x \<in> fst ` set (files ?w)" by force
  qed
  moreover from Cons.prems have "distinct ps" by simp
  ultimately have "rmtree_entries E remove_readonly ps ?w
       = (Inr (), ?w\<lparr>files := filter (\<lambda>f. fst f \<notin> set ps) (files ?w)\<rparr>)"
    by (intro Cons.IH)
  with step show ?case
    by (simp add: io_bind_def conj_commute)
qed

lemma rmtree_dir:
  assumes "path \<in> set (dirs w)"
  shows "rmtree E path remove_readonly w
           = (Inr (), w\<lparr>files := filter (\<lambda>f. \<not> path_under path (fst f)) (files w),
                        dirs := removeAll path (dirs w)\<rparr>)"
proof -
  let ?ps = "remdups (filter (path_under path) (map fst (files w)))"
  have "rmtree_entries E remove_readonly ?ps w
          = (Inr (), w\<lparr>files := filter (\<lambda>f. fst f \<notin> set ?ps) (files w)\<rparr>)"
    by (intro rmtree_entries_removes) auto
  moreover have "filter (\<lambda>f. fst f \<notin> set ?ps) (files w) = filter (\<lambda>f. \<not> path_under path (fst f)) (files w)"
    by (intro filter_cong) auto
  ultimately show ?thesis using assms
    by (simp add: rmtree_def io_bind_def io_catch_def os_rmdir_def)
qed

lemma rmtree_missing:
  assumes "path \<notin> set (dirs w)" "path \<notin> fst ` set (files w)"
  shows "rmtree E path remove_readonly w = (Inl FileNotFoundError, w)"
  using assms by (simp add: rmtree_def remove_readonly_def io_bind_def os_chmod_def)


lemma path_under_trans: "path_under (d @ str ''/clone'') p \<Longrightarrow> path_under d p"
  by (auto simp: path_under_def prefix_def str_def)

lemma joinpath_clone: "joinpath d (str ''clone'') = d @ str ''/clone''"
  by (simp add: joinpath_def str_def)

lemma joinpath_bundle:
  "prefix (str ''repositories/'') b \<Longrightarrow> joinpath d b = d @ str ''/'' @ b"
  by (auto simp: joinpath_def str_def prefix_def)

lemma bundle_not_in_clone:
  "prefix (str ''repositories/'') b \<Longrightarrow> \<not> path_under (d @ str ''/clone'') (d @ str ''/'' @ b)"
  by (auto simp: path_under_def str_def prefix_def)

lemma bundle_in_tempdir: "path_under d (d @ str ''/'' @ b)"
  by (simp add: path_under_def)

lemma clone_in_tempdir: "path_under d (d @ str ''/clone'')"
  by (simp add: path_under_def str_def)

lemma empty_dir_filter:
  "empty_dir d w \<Longrightarrow> filter (\<lambda>f. \<not> path_under d (fst f)) (files w) = files w"
  "empty_dir d w \<Longrightarrow> filter (\<lambda>f. fst f \<noteq> d @ str ''/'' @ b) (files w) = files w"
  "empty_dir d w \<Longrightarrow> filter (\<lambda>f. \<not> path_under (d @ str ''/clone'') (fst f)) (files w) = files w"
  "empty_dir d w \<Longrightarrow> d @ str ''/clone'' \<notin> set (dirs w)"
  "empty_dir d w \<Longrightarrow> d @ str ''/clone'' \<notin> fst ` set (files w)"
  using bundle_in_tempdir [of d b] clone_in_tempdir [of d]
  by (auto simp: empty_dir_def list_all_iff filter_id_conv dest: path_under_trans)

lemma importRepo_block_fs:
  assumes pre: "prefix (str ''repositories/'') (bundle r)" and emp: "empty_dir d w"
  shows "dirs (snd (importRepo_block E self r d w)) = dirs w
         \<and> (files (snd (importRepo_block E self r d w)) = files w
            \<or> files (snd (importRepo_block E self r d w))
                = files w @ [(d @ str ''/'' @ bundle r, extracted_readonly E (bundle r))])"
proof -
  let ?bp = "d @ str ''/'' @ bundle r" and ?cl = "d @ str ''/clone''"
  let ?S = "\<lambda>repo. if isUserRepo (uni E) self r then importUserRepo E self r repo
                     else importGroupRepo E self r repo"
  let ?A = "io_bind (tar_extract E (bundle r) d) (\<lambda>_. io_bind (clone_from E ?bp ?cl) ?S)"
  let ?F1 = "files w @ [(?bp, extracted_readonly E (bundle r))]"
  let ?T = "map (\<lambda>f. (?cl @ str ''/'' @ fst f, snd f)) (clone_tree E ?bp)"
  have blk: "importRepo_block E self r d = try_finally ?A (rmtree E ?cl remove_readonly)"
    using pre by (simp add: importRepo_block_def Let_def joinpath_clone joinpath_bundle)
  have S: "\<And>repo v. files (snd (?S repo v)) = files v \<and> dirs (snd (?S repo v)) = dirs v"
    using keeps_fs_importUserRepo [of E self r] keeps_fs_importGroupRepo [of E self r]
    by (simp add: keeps_fs_def)
  have A: "(dirs (snd (?A w)) = dirs w \<and> (files (snd (?A w)) = files w \<or> files (snd (?A w)) = ?F1))
           \<or> (dirs (snd (?A w)) = dirs w @ [?cl] \<and> files (snd (?A w)) = ?F1 @ ?T)"
    using S emp pre
    by (simp add: io_defs tar_extract_def clone_from_def joinpath_bundle empty_dir_filter
        split: prod.splits sum.splits)
  obtain res v where v: "?A w = (res, v)" by (cases "?A w")
  from A v consider
      (none) "dirs v = dirs w" "files v = files w \<or> files v = ?F1"
    | (cloned) "dirs v = dirs w @ [?cl]" "files v = ?F1 @ ?T"
    by auto
  then show ?thesis
  proof cases
    case none
    have "?cl \<notin> set (dirs v)" using none emp by (simp add: empty_dir_filter)
    moreover have "?cl \<notin> fst ` set (files v)"
      using none emp pre empty_dir_filter(5) [of d w]
      by (auto simp: str_def prefix_def)
    ultimately have "rmtree E ?cl remove_readonly v = (Inl FileNotFoundError, v)"
      by (rule rmtree_missing)
    with v none show ?thesis by (auto simp: blk try_finally_def)
  next
    case cloned
    then have "?cl \<in> set (dirs v)" by simp
    from rmtree_dir [OF this, of E]
    have "rmtree E ?cl remove_readonly v
            = (Inr (), v\<lparr>files := filter (\<lambda>f. \<not> path_under ?cl (fst f)) (files v),
                         dirs := removeAll ?cl (dirs v)\<rparr>)" .
    moreover have "filter (\<lambda>f. \<not> path_under ?cl (fst f)) (files v) = ?F1"
      using cloned emp pre bundle_not_in_clone [of "bundle r" d]
      by (simp add: empty_dir_filter comp_def) (simp add: path_under_def)
    moreover have "removeAll ?cl (dirs v) = dirs w"
      using cloned emp by (simp add: empty_dir_filter)
    ultimately show ?thesis using v by (simp add: blk try_finally_def)
  qed
qed

lemma iter_bundle_prefix:
  "r \<in> set (iter_GitlabBackup self) \<Longrightarrow> prefix (str ''repositories/'') (bundle r)"
  using re_match_sound [of "bundle r" "membership r" "name r"]
  by (auto simp: iter_member)

text \<open>
  C8: a record of the archive is imported in a temporary directory \<open>d\<close> that is empty
  at the start. Whatever the calls do (fail or not), at the end of the
  \<open>try ... finally\<close> block no file is left inside the clone directory, read-only
  files included, also where the operating system refuses to delete a read-only file:
  the handler clears the attribute and deletes again. And when \<open>importRepo\<close> is left,
  by return or by exception, the temporary directory is gone and nothing is left
  inside it. (Paths are compared as they are written.)
\<close>

theorem importRepo_removes_tempdir:
  assumes r: "r \<in> set (iter_GitlabBackup self)" and emp: "empty_dir d w"
  shows "list_all (\<lambda>f. \<not> path_under (d @ str ''/clone'') (fst f))
           (files (snd (importRepo_block E self r d w)))
         \<and> (d = mkdtemp E \<and> d \<notin> set (dirs w) \<longrightarrow>
              d \<notin> set (dirs (snd (importRepo E self r w)))
              \<and> empty_dir d (snd (importRepo E self r w)))"
proof (rule conjI)
  note pre = iter_bundle_prefix [OF r]
  from importRepo_block_fs [OF pre emp, of E self]
  have "filter (\<lambda>f. \<not> path_under (d @ str ''/clone'') (fst f))
          (files (snd (importRepo_block E self r d w))) = files (snd (importRepo_block E self r d w))"
    using emp pre bundle_not_in_clone [of "bundle r" d]
    by (auto simp: empty_dir_filter)
  then show "list_all (\<lambda>f. \<not> path_under (d @ str ''/clone'') (fst f))
           (files (snd (importRepo_block E self r d w)))"
    by (simp add: filter_id_conv list_all_iff)
next
  show "d = mkdtemp E \<and> d \<notin> set (dirs w) \<longrightarrow>
              d \<notin> set (dirs (snd (importRepo E self r w)))
              \<and> empty_dir d (snd (importRepo E self r w))"
  proof
    assume "d = mkdtemp E \<and> d \<notin> set (dirs w)"
    then have h: "mkdtemp E = d" "d \<notin> set (dirs w)" by auto
    show "d \<notin> set (dirs (snd (importRepo E self r w)))
              \<and> empty_dir d (snd (importRepo E self r w))"
    proof (cases "fails E (Mkdtemp d)")
      case True
      with h emp show ?thesis
        by (simp add: importRepo_def with_TemporaryDirectory_def io_defs empty_dir_def)
    next
      case False
      let ?w0 = "w\<lparr>trace := trace w @ [Mkdtemp d], dirs := dirs w @ [d]\<rparr>"
      obtain res v where bv: "importRepo_block E self r d ?w0 = (res, v)"
        by (cases "importRepo_block E self r d ?w0")
      with False h show ?thesis
        by (simp add: importRepo_def with_TemporaryDirectory_def io_defs cleanup_def
            empty_dir_def list_all_iff split: sum.splits)
    qed
  qed
qed

theorem importRepo_removes_tempdir_witness:
  "\<lparr>bundle = str ''repositories/eng/sub/api.bundle'', membership = str ''eng/sub'',
    name = str ''api''\<rparr> \<in> set (iter_GitlabBackup nested)
   \<and> empty_dir (str ''/tmp/t'') home_world
   \<and> list_all (\<lambda>f. \<not> path_under (str ''/tmp/t'' @ str ''/clone'') (fst f))
        (files (snd (importRepo_block quiet nested
           \<lparr>bundle = str ''repositories/eng/sub/api.bundle'', membership = str ''eng/sub'',
             name = str ''api''\<rparr> (str ''/tmp/t'') home_world)))
   \<and> str ''/tmp/t'' \<notin> set (dirs (snd (importRepo quiet nested
        \<lparr>bundle = str ''repositories/eng/sub/api.bundle'', membership = str ''eng/sub'',
          name = str ''api''\<rparr> home_world)))
   \<and> empty_dir (str ''/tmp/t'') (snd (importRepo quiet nested
        \<lparr>bundle = str ''repositories/eng/sub/api.bundle'', membership = str ''eng/sub'',
          name = str ''api''\<rparr> home_world))"
proof -
  let ?r = "\<lparr>bundle = str ''repositories/eng/sub/api.bundle'', membership = str ''eng/sub'',
             name = str ''api''\<rparr>"
  have r: "?r \<in> set (iter_GitlabBackup nested)" by code_simp
  have e: "empty_dir (str ''/tmp/t'') home_world" by code_simp
  have d: "str ''/tmp/t'' = mkdtemp quiet \<and> str ''/tmp/t'' \<notin> set (dirs home_world)"
    by code_simp
  from importRepo_removes_tempdir [OF r e, of quiet] r e d show ?thesis by blast
qed

subsection \<open>The run over the archive\<close>








subsection \<open>The existence check\<close>

text \<open>
  C2, at two inputs that separate the code from the claim. The record belongs to the
  group \<open>team\<close>, whose organization identifier is \<open>team\<close>. Where the organization has
  the repository already, the code asks for the repository of the administrator
  \<open>root\<close>, finds none and goes on to create, which the server refuses. Where the
  administrator has a repository of that name and the organization has none, the
  import is skipped.
\<close>

theorem importGroupRepo_checks_admin_account:
  "organizationNameFromGroupName (uni quiet) (membership rec_svc) = str ''team''
   \<and> importGroupRepo quiet team_backup rec_svc (str ''/tmp/t/clone'') org_has_svc
       = (Inl ApiFailure,
          org_has_svc\<lparr>tokens := [(str ''root'', str ''gitlab2gogs'')],
            trace := [RepoExists (str ''root'') (str ''svc''),
              Echo (str ''Importing organization repository: svc (repositories/team/svc.bundle)''),
              EnsureToken (str ''gitlab2gogs'') (str ''root''),
              CreateRepo (str ''root'') (str ''svc'') (str ''today'') (Some (str ''team''))]\<rparr>)
   \<and> importGroupRepo quiet team_backup rec_svc (str ''/tmp/t/clone'') admin_has_svc
       = (Inr (),
          admin_has_svc\<lparr>trace := [RepoExists (str ''root'') (str ''svc''),
              Echo (str ''WARNING: Repository svc for user root already exists - skipping!'')]\<rparr>)"
  by code_simp

text \<open>
  What the group strategy does, for every record: it is skipped exactly when the
  administrator's account has a repository of the record's name; otherwise a token is
  ensured for the administrator and the creation is asked for, whether or not the
  organization has the repository.
\<close>

theorem importGroupRepo_skips_on_admin_repository:
  assumes "gogsapi self = Some api" "gogsauth self = Some auth" "gogsbaseurl self = Some url"
    and "\<not> fails E (RepoExists (fst auth) (name r))"
  shows "((fst auth, name r) \<in> set (repos w) \<longrightarrow>
            importGroupRepo E self r repo w
              = (Inr (), w\<lparr>trace := trace w @ [RepoExists (fst auth) (name r),
                   Echo (str ''WARNING: Repository '' @ name r @ str '' for user '' @ fst auth
                         @ str '' already exists - skipping!'')]\<rparr>))
         \<and> ((fst auth, name r) \<notin> set (repos w) \<longrightarrow>
              EnsureToken (str ''gitlab2gogs'') (fst auth)
                \<in> set (trace (snd (importGroupRepo E self r repo w))))"
  using assms
  by (auto simp: importGroupRepo_def repo_exists_def ensure_token_def create_repo_def
      git_push_def io_defs Let_def split: prod.splits sum.splits)

theorem importGroupRepo_skips_on_admin_repository_witness:
  "gogsapi team_backup = Some (str ''http://h'')
   \<and> gogsauth team_backup = Some (str ''root'', str ''pw'')
   \<and> gogsbaseurl team_backup = Some (str ''http://root:pw@h'')
   \<and> \<not> fails quiet (RepoExists (str ''root'') (name rec_svc))
   \<and> (str ''root'', name rec_svc) \<in> set (repos admin_has_svc)
   \<and> importGroupRepo quiet team_backup rec_svc (str ''/tmp/t/clone'') admin_has_svc
       = (Inr (), admin_has_svc\<lparr>trace := trace admin_has_svc @ [RepoExists (str ''root'') (name rec_svc),
            Echo (str ''WARNING: Repository '' @ name rec_svc @ str '' for user '' @ str ''root''
                  @ str '' already exists - skipping!'')]\<rparr>)"
proof -
  have a: "gogsapi team_backup = Some (str ''http://h'')" by code_simp
  have b: "gogsauth team_backup = Some (str ''root'', str ''pw'')" by code_simp
  have c: "gogsbaseurl team_backup = Some (str ''http://root:pw@h'')" by code_simp
  have d: "\<not> fails quiet (RepoExists (fst (str ''root'', str ''pw'')) (name rec_svc))" by code_simp
  have e: "(str ''root'', name rec_svc) \<in> set (repos admin_has_svc)" by code_simp
  from importGroupRepo_skips_on_admin_repository [OF a b c d, of admin_has_svc "str ''/tmp/t/clone''"]
    a b c d e
  show ?thesis by simp
qed

text \<open>
  C4, at an input that separates the code from the claim: the import of a record of
  the group \<open>team\<close> whose destination, the repository \<open>svc\<close> of the organization
  \<open>team\<close>, exists on the server. No warning is given; a token is ensured (the server
  has one more token at the end), the creation is asked for, and the refusal of the
  server leaves the import as an exception.
\<close>

theorem importRepo_existing_group_destination:
  "\<not> isUserRepo (uni quiet) team_backup rec_svc
   \<and> (organizationNameFromGroupName (uni quiet) (membership rec_svc), name rec_svc)
        \<in> set (repos org_has_svc)
   \<and> importRepo quiet team_backup rec_svc org_has_svc
       = (Inl ApiFailure,
          org_has_svc\<lparr>tokens := [(str ''root'', str ''gitlab2gogs'')],
            trace := [Mkdtemp (str ''/tmp/t''),
              Extract (str ''repositories/team/svc.bundle'') (str ''/tmp/t''),
              CloneFrom (str ''/tmp/t/repositories/team/svc.bundle'') (str ''/tmp/t/clone''),
              RepoExists (str ''root'') (str ''svc''),
              Echo (str ''Importing organization repository: svc (repositories/team/svc.bundle)''),
              EnsureToken (str ''gitlab2gogs'') (str ''root''),
              CreateRepo (str ''root'') (str ''svc'') (str ''today'') (Some (str ''team''))]\<rparr>)"
  by code_simp

text \<open>
  The user strategy skips without effect, for every record: when the user has a
  repository of the record's name (and the query succeeds), the import asks for the
  repository, prints the warning and returns; it makes no other call, and the
  repositories and tokens of the server are as before.
\<close>

theorem importUserRepo_skips_existing:
  assumes "gogsapi self = Some api" "gogsauth self = Some auth" "gogsbaseurl self = Some url"
    and "\<not> fails E (RepoExists (membership r) (name r))"
    and "(membership r, name r) \<in> set (repos w)"
  shows "importUserRepo E self r repo w
           = (Inr (), w\<lparr>trace := trace w @ [RepoExists (membership r) (name r),
                Echo (str ''WARNING: Repository '' @ name r @ str '' for user '' @ membership r
                      @ str '' already exists - skipping!'')]\<rparr>)"
  using assms by (simp add: importUserRepo_def repo_exists_def io_defs)

theorem importUserRepo_skips_existing_witness:
  "gogsapi team_backup = Some (str ''http://h'')
   \<and> gogsauth team_backup = Some (str ''root'', str ''pw'')
   \<and> gogsbaseurl team_backup = Some (str ''http://root:pw@h'')
   \<and> \<not> fails quiet (RepoExists (membership rec_p) (name rec_p))
   \<and> (membership rec_p, name rec_p) \<in> set (repos alice_has_p)
   \<and> isUserRepo (uni quiet) team_backup rec_p
   \<and> importUserRepo quiet team_backup rec_p (str ''/tmp/t/clone'') alice_has_p
       = (Inr (), alice_has_p\<lparr>trace := trace alice_has_p @ [RepoExists (membership rec_p) (name rec_p),
            Echo (str ''WARNING: Repository '' @ name rec_p @ str '' for user '' @ membership rec_p
                  @ str '' already exists - skipping!'')]\<rparr>)"
proof -
  have a: "gogsapi team_backup = Some (str ''http://h'')" by code_simp
  have b: "gogsauth team_backup = Some (str ''root'', str ''pw'')" by code_simp
  have c: "gogsbaseurl team_backup = Some (str ''http://root:pw@h'')" by code_simp
  have d: "\<not> fails quiet (RepoExists (membership rec_p) (name rec_p))" by code_simp
  have e: "(membership rec_p, name rec_p) \<in> set (repos alice_has_p)" by code_simp
  have u: "isUserRepo (uni quiet) team_backup rec_p" by code_simp
  from importUserRepo_skips_existing [OF a b c d e, of "str ''/tmp/t/clone''"] a b c d e u
  show ?thesis by simp
qed

end
